theory Spec2Isabelle
  imports Main "HOL-Library.FSet"
begin

section \<open>Data model of the chat server (src/server/main.cpp)\<close>

text \<open>
  A session object is identified by its address: \<open>std::set<std::shared_ptr<Users>>\<close>
  orders and compares its elements by the stored pointer. The only class deriving from
  \<open>Users\<close> is \<open>ChatSession\<close>, so every virtual call \<open>user->deliver(msg)\<close> is
  \<open>ChatSession::deliver\<close>. Member names drop the trailing underscore of the source.
  One world holds one room (the listener of one port) and the sessions started on it.
\<close>

type_synonym addr = nat

text \<open>Error codes that reach the session from the transport.\<close>

datatype error_code = not_found | eof | operation_aborted | connection_reset | broken_pipe

text \<open>
  The coroutine frame of \<open>ChatSession::writer\<close>: where the coroutine is suspended.
  \<open>At_write buf\<close> is the \<open>co_await async_write\<close> of line 153 with the temporary
  buffer \<open>front() + '\n'\<close>; \<open>At_wait\<close> is the \<open>co_await timer_.async_wait\<close> of line 157.
\<close>

datatype writer_pc = Spawned | At_write string | At_wait | Finished

text \<open>The two coroutines that \<open>start\<close> passes to \<open>co_spawn\<close>.\<close>

datatype task = Reader addr | Writer addr

text \<open>
  \<open>ChatSession\<close>. The socket is its open flag and the buffers written through it so
  far, the timer is the number of asynchronous waits pending on it (its expiry is
  \<open>time_point::max()\<close>, so a wait ends only by cancellation). \<open>username\<close> is the
  member of \<open>ChatSession\<close>; the private member of the same name in \<open>Users\<close> is never
  read.
\<close>

record ChatSession =
  socket_open :: bool
  socket_sent :: "string list"
  timer_waits :: nat
  write_message :: "string list"
  username :: string

text \<open>
  \<open>ChatRoom\<close> together with the session objects its pointers refer to, the two
  console streams, and the coroutines handed to the executor by \<open>co_spawn\<close>.
\<close>

record world =
  users :: "addr fset"
  recent_message :: "string list"
  sessions :: "addr \<Rightarrow> ChatSession"
  cout :: "string list"
  cerr :: "string list"
  spawned :: "task list"

text \<open>
  The constructor of \<open>ChatSession\<close> (the socket handed over by the listener is open,
  nothing waits on the timer yet), and a freshly constructed \<open>ChatRoom\<close> with no
  output written yet.
\<close>

definition new_session :: "string \<Rightarrow> ChatSession" where
  "new_session name =
     \<lparr>socket_open = True, socket_sent = [], timer_waits = 0, write_message = [],
      username = name\<rparr>"

definition new_world :: "(addr \<Rightarrow> string) \<Rightarrow> world" where
  "new_world names =
     \<lparr>users = {||}, recent_message = [], sessions = (\<lambda>a. new_session (names a)),
      cout = [], cerr = [], spawned = []\<rparr>"

definition max_recent :: nat where
  "max_recent = 10"

section \<open>The wake signal: ChatSession::cancel\<close>

text \<open>Decimal output of \<open>operator<<\<close> for a \<open>std::size_t\<close>.\<close>

function to_string :: "nat \<Rightarrow> string" where
  "to_string n =
     (if n < 10 then [''0123456789'' ! n]
      else to_string (n div 10) @ [''0123456789'' ! (n mod 10)])"
  by pat_completeness auto
termination
  by (relation "measure (\<lambda>n. n)") auto

declare to_string.simps [simp del]

text \<open>
  \<open>timer_.cancel_one(ec)\<close> of the library: completes the oldest pending wait, if there
  is one, and returns the number of waits it completed (0 or 1); it never sets \<open>ec\<close>.
  The result is the error code, the count and the waits left pending.
\<close>

definition cancel_one :: "nat \<Rightarrow> error_code option \<times> nat \<times> nat" where
  "cancel_one waits = (if 0 < waits then (None, 1, waits - 1) else (None, 0, 0))"

text \<open>\<open>ec.message()\<close>.\<close>

fun message :: "error_code \<Rightarrow> string" where
  "message not_found = ''Element not found''"
| "message eof = ''End of file''"
| "message operation_aborted = ''Operation canceled''"
| "message connection_reset = ''Connection reset by peer''"
| "message broken_pipe = ''Broken pipe''"

definition cancel :: "addr \<Rightarrow> world \<Rightarrow> world" where
  "cancel a w =
     (let s = sessions w a in
      case cancel_one (timer_waits s) of
        (ec, num_cancelled, waits) \<Rightarrow>
          (let w1 = w\<lparr>sessions := (sessions w)(a := s\<lparr>timer_waits := waits\<rparr>)\<rparr> in
           case ec of
             Some e \<Rightarrow> w1\<lparr>cout := cout w1 @ [''Cancel error: '' @ message e]\<rparr>
           | None \<Rightarrow>
               w1\<lparr>cout := cout w1 @
                 [''Number of cancelled operations: '' @ to_string num_cancelled]\<rparr>))"

section \<open>ChatSession::deliver\<close>

definition deliver :: "addr \<Rightarrow> string \<Rightarrow> world \<Rightarrow> world" where
  "deliver a msg w =
     (let s = sessions w a in
      cancel a (w\<lparr>sessions := (sessions w)(a := s\<lparr>write_message := write_message s @ [msg]\<rparr>)\<rparr>))"

section \<open>ChatRoom\<close>

text \<open>\<open>join\<close>: insert into the set, then replay the history to the new user.\<close>

definition join :: "addr \<Rightarrow> world \<Rightarrow> world" where
  "join new_user w =
     (let w1 = w\<lparr>users := finsert new_user (users w)\<rparr> in
      fold (\<lambda>msg. deliver new_user msg) (recent_message w1) w1)"

definition leave :: "addr \<Rightarrow> world \<Rightarrow> world" where
  "leave remove_user w = w\<lparr>users := users w |-| {|remove_user|}\<rparr>"

text \<open>The loop \<open>while (recent_message_.size() > max_recent_) pop_front()\<close>.\<close>

function pop_excess :: "string list \<Rightarrow> string list" where
  "pop_excess q = (if max_recent < length q then pop_excess (tl q) else q)"
  by pat_completeness auto
termination
  by (relation "measure length") auto

declare pop_excess.simps [simp del]

text \<open>
  \<open>ChatRoom::deliver\<close>: the range-for over the \<open>std::set\<close> visits the members in
  increasing pointer order.
\<close>

definition room_deliver :: "string \<Rightarrow> world \<Rightarrow> world" where
  "room_deliver msg w =
     (let w1 = w\<lparr>recent_message := recent_message w @ [msg]\<rparr>;
          w2 = w1\<lparr>recent_message := pop_excess (recent_message w1)\<rparr>
      in fold (\<lambda>user. deliver user msg) (sorted_list_of_fset (users w2)) w2)"

text \<open>The operations of a room, to speak about sequences of calls.\<close>

datatype room_op = Join addr | Leave addr | Deliver string

fun room_call :: "room_op \<Rightarrow> world \<Rightarrow> world" where
  "room_call (Join a) w = join a w"
| "room_call (Leave a) w = leave a w"
| "room_call (Deliver msg) w = room_deliver msg w"

fun delivered :: "room_op list \<Rightarrow> string list" where
  "delivered [] = []"
| "delivered (Deliver msg # ops) = msg # delivered ops"
| "delivered (_ # ops) = delivered ops"

section \<open>ChatSession: start and stop\<close>

text \<open>
  \<open>start\<close>: join the room, queue the welcome line through the session's own
  \<open>deliver\<close>, and hand the reader and the writer coroutine to the executor.
\<close>

definition start :: "addr \<Rightarrow> world \<Rightarrow> world" where
  "start a w =
     (let w1 = join a w;
          w2 = deliver a (''Welcome to the chat, '' @ username (sessions w1 a) @ ''!'') w1
      in w2\<lparr>spawned := spawned w2 @ [Reader a, Writer a]\<rparr>)"

text \<open>
  \<open>timer_.cancel()\<close> of the library: completes every pending wait and returns how many
  there were. The result is the count and the waits left pending.
\<close>

definition timer_cancel :: "nat \<Rightarrow> nat \<times> nat" where
  "timer_cancel waits = (waits, 0)"

text \<open>
  \<open>stop\<close>: \<open>room_.leave\<close>, \<open>socket_.close()\<close> (which succeeds on a socket that is
  already closed), \<open>timer_.cancel()\<close>.
\<close>

definition stop :: "addr \<Rightarrow> world \<Rightarrow> world" where
  "stop a w =
     (let w1 = leave a w;
          w2 = w1\<lparr>sessions := (sessions w1)(a := (sessions w1 a)\<lparr>socket_open := False\<rparr>)\<rparr>
      in w2\<lparr>sessions := (sessions w2)(a := (sessions w2 a)
                \<lparr>timer_waits := snd (timer_cancel (timer_waits (sessions w2 a)))\<rparr>)\<rparr>)"

section \<open>ChatSession::writer\<close>

abbreviation nl :: char where
  "nl \<equiv> CHR 0x0A"

text \<open>
  From the head of the \<open>while (socket_.is_open())\<close> loop to the next suspension: the
  coroutine either leaves the loop, or starts writing \<open>front() + '\n'\<close>, or starts a
  wait on the timer.
\<close>

definition writer_loop :: "addr \<Rightarrow> world \<Rightarrow> writer_pc \<times> world" where
  "writer_loop a w =
     (let s = sessions w a in
      if socket_open s then
        if write_message s \<noteq> [] then (At_write (hd (write_message s) @ [nl]), w)
        else (At_wait, w\<lparr>sessions := (sessions w)(a := s\<lparr>timer_waits := Suc (timer_waits s)\<rparr>)\<rparr>)
      else (Finished, w))"

text \<open>
  Resuming the coroutine with the result of the operation it awaited. A failed write
  is thrown as an exception and caught by \<open>catch (std::exception&)\<close>, which calls
  \<open>stop\<close>; a completed write is followed by \<open>pop_front\<close>, which is undefined on an
  empty deque (the result \<open>None\<close>); the result of the wait is ignored
  (\<open>redirect_error\<close>).
\<close>

fun writer_resume ::
  "addr \<Rightarrow> error_code option \<Rightarrow> writer_pc \<Rightarrow> world \<Rightarrow> (writer_pc \<times> world) option" where
  "writer_resume a r Spawned w = Some (writer_loop a w)"
| "writer_resume a (Some e) (At_write buf) w = Some (Finished, stop a w)"
| "writer_resume a None (At_write buf) w =
     (let s = sessions w a in
      case write_message s of
        [] \<Rightarrow> None
      | front # rest \<Rightarrow>
          Some (writer_loop a
            (w\<lparr>sessions := (sessions w)(a := s\<lparr>socket_sent := socket_sent s @ [buf],
                                                 write_message := rest\<rparr>)\<rparr>)))"
| "writer_resume a r At_wait w = Some (writer_loop a w)"
| "writer_resume a r Finished w = Some (Finished, w)"

text \<open>
  The executor resumes the writer only when the operation it awaits has completed: a
  wait on the timer has completed once it is no longer pending.
\<close>

fun resumable :: "writer_pc \<Rightarrow> ChatSession \<Rightarrow> bool" where
  "resumable At_wait s = (timer_waits s = 0)"
| "resumable Finished s = False"
| "resumable pc s = True"

text \<open>
  What can happen to one session between two suspension points of its writer: the
  room or the session itself calls \<open>deliver\<close>, the reader calls \<open>stop\<close>, or the
  executor resumes the writer. An event that cannot happen in the current state is
  skipped.
\<close>

datatype event = Ev_deliver string | Ev_stop | Ev_resume "error_code option"

fun run :: "addr \<Rightarrow> event list \<Rightarrow> writer_pc \<times> world \<Rightarrow> (writer_pc \<times> world) option" where
  "run a [] c = Some c"
| "run a (Ev_deliver msg # evs) (pc, w) = run a evs (pc, deliver a msg w)"
| "run a (Ev_stop # evs) (pc, w) = run a evs (pc, stop a w)"
| "run a (Ev_resume r # evs) (pc, w) =
     (if resumable pc (sessions w a) then
        (case writer_resume a r pc w of
           None \<Rightarrow> None
         | Some c \<Rightarrow> run a evs c)
      else run a evs (pc, w))"


definition frame :: "string \<Rightarrow> string" where
  "frame msg = msg @ [nl]"

section \<open>ChatSession::reader\<close>

text \<open>The ceiling of \<open>dynamic_buffer(read_message, 1024)\<close>.\<close>

definition max_size :: nat where
  "max_size = 1024"

text \<open>Position of the first delimiter in the buffer.\<close>

fun find_delim :: "string \<Rightarrow> nat option" where
  "find_delim [] = None"
| "find_delim (c # cs) = (if c = nl then Some 0 else map_option Suc (find_delim cs))"

text \<open>
  \<open>async_read_until(socket_, dynamic_buffer(read_message, 1024), "\n")\<close> of the
  library. The transport is the list of chunks that the following reads of the socket
  return, and the error \<open>fin\<close> that ends it. The operation returns the number of bytes
  of the buffer up to and including the first delimiter; while the buffer holds no
  delimiter it fails with \<open>not_found\<close> when the buffer is full, and otherwise reads at
  most the free space of the buffer from the socket. The result is the outcome, the
  buffer and the chunks not yet read.
\<close>

function async_read_until ::
  "error_code \<Rightarrow> string \<Rightarrow> string list \<Rightarrow> (error_code + nat) \<times> string \<times> string list" where
  "async_read_until fin buf chunks =
     (case find_delim buf of
        Some i \<Rightarrow> (Inr (Suc i), buf, chunks)
      | None \<Rightarrow>
          if max_size \<le> length buf then (Inl not_found, buf, chunks)
          else
            (case chunks of
               [] \<Rightarrow> (Inl fin, buf, [])
             | c # cs \<Rightarrow>
                 if c = [] then async_read_until fin buf cs
                 else
                   (let k = min (length c) (max_size - length buf) in
                    async_read_until fin (buf @ take k c)
                      (if k < length c then drop k c # cs else cs))))"
  by pat_completeness auto
termination
  by (relation "measure (\<lambda>(fin, buf, chunks). length (concat chunks) + length chunks)")
     (auto simp: min_def)

declare async_read_until.simps [simp del]

text \<open>
  The reader coroutine, run against the transport until it ends. A failed read is
  thrown as \<open>boost::system::system_error\<close>; the handler logs \<open>e.what()\<close> (here the
  message of the error code) and calls \<open>stop\<close>. The second handler, for any other
  exception, calls \<open>stop\<close> as well; nothing in this model throws one.
  \<open>read_message\<close> is the local buffer of the coroutine, \<open>substr(0, n)\<close> and
  \<open>erase(0, n)\<close> are \<open>take n\<close> and \<open>drop n\<close>.
\<close>

definition on_read_error :: "error_code \<Rightarrow> addr \<Rightarrow> world \<Rightarrow> world" where
  "on_read_error e a w = stop a (w\<lparr>cerr := cerr w @ [''Async read error: '' @ message e]\<rparr>)"

function reader :: "addr \<Rightarrow> error_code \<Rightarrow> string list \<Rightarrow> string \<Rightarrow> world \<Rightarrow> world" where
  "reader a fin chunks read_message w =
     (let (r, buf, chunks') = async_read_until fin read_message chunks in
      case r of
        Inl e \<Rightarrow> on_read_error e a w
      | Inr n \<Rightarrow> reader a fin chunks' (drop n buf) (room_deliver (take n buf) w))"
  by pat_completeness auto
termination
proof (relation "measure (\<lambda>(a, fin, chunks, buf, w). length buf + length (concat chunks))")
  show "wf (measure (\<lambda>(a, fin, chunks, buf, w). length buf + length (concat chunks)))"
    by simp
next
  fix a :: addr and fin read_message w x r y buf chunks' n and chunks :: "string list"
  assume run: "x = async_read_until fin read_message chunks"
    and x: "(r, y) = x" and y: "(buf, chunks') = y" and r: "r = Inr n"
  have res: "async_read_until fin read_message chunks = (Inr n, buf, chunks')"
    using run x y r by simp
  have "\<And>r b rest. async_read_until fin read_message chunks = (r, b, rest) \<Longrightarrow>
          b @ concat rest = read_message @ concat chunks \<and>
          (\<forall>n. r = Inr n \<longrightarrow> 0 < n \<and> n \<le> length b)"
  proof (induction fin read_message chunks rule: async_read_until.induct)
    case (1 fin buf chunks)
    have delim: "find_delim s = Some i \<Longrightarrow> i < length s" for s i
      by (induction s arbitrary: i) (auto split: if_splits)
    show ?case
    proof (cases "find_delim buf")
      case (Some i)
      with 1(3) delim [OF Some] show ?thesis
        by (subst (asm) async_read_until.simps) auto
    next
      case None
      show ?thesis
      proof (cases "max_size \<le> length buf")
        case True
        with None 1(3) show ?thesis
          by (subst (asm) async_read_until.simps) auto
      next
        case False
        show ?thesis
        proof (cases chunks)
          case Nil
          with None False 1(3) show ?thesis
            by (subst (asm) async_read_until.simps) auto
        next
          case (Cons c cs)
          show ?thesis
          proof (cases "c = []")
            case True
            have "async_read_until fin buf chunks = async_read_until fin buf cs"
              by (subst async_read_until.simps) (simp add: None False Cons True)
            with 1(3) have "async_read_until fin buf cs = (r, b, rest)"
              by simp
            from 1(1) [OF None False Cons True this] Cons True show ?thesis
              by simp
          next
            case nonempty: False
            define k where "k = min (length c) (max_size - length buf)"
            define cs' where "cs' = (if k < length c then drop k c # cs else cs)"
            have "async_read_until fin buf chunks = async_read_until fin (buf @ take k c) cs'"
              by (subst async_read_until.simps)
                 (simp add: None False Cons nonempty k_def cs'_def Let_def)
            with 1(3) have "async_read_until fin (buf @ take k c) cs' = (r, b, rest)"
              by simp
            from 1(2) [OF None False Cons nonempty k_def this [unfolded cs'_def]]
            have "b @ concat rest = (buf @ take k c) @ concat cs'"
              and "\<forall>n. r = Inr n \<longrightarrow> 0 < n \<and> n \<le> length b"
              by (simp_all add: cs'_def)
            moreover have "take k c @ concat cs' = concat chunks"
              by (simp add: cs'_def Cons)
            ultimately show ?thesis
              by simp
          qed
        qed
      qed
    qed
  qed
  from this [OF res] have "buf @ concat chunks' = read_message @ concat chunks"
    and "0 < n" and "n \<le> length buf"
    by auto
  then have "length (drop n buf) + length (concat chunks') <
             length read_message + length (concat chunks)"
    using length_append [of buf "concat chunks'"] length_append [of read_message "concat chunks"]
    by simp
  then show "((a, fin, chunks', drop n buf, room_deliver (take n buf) w),
              (a, fin, chunks, read_message, w))
             \<in> measure (\<lambda>(a, fin, chunks, buf, w). length buf + length (concat chunks))"
    by simp
qed

declare reader.simps [simp del]

section \<open>Auxiliary notions for the proofs\<close>

text \<open>
  While a write is in flight, the buffer being written is the front of the queue
  followed by the terminator. \<open>pending\<close> is everything the session has written
  followed by everything it still holds.
\<close>

definition writer_inv :: "writer_pc \<Rightarrow> ChatSession \<Rightarrow> bool" where
  "writer_inv pc s =
     (case pc of
        At_write buf \<Rightarrow> write_message s \<noteq> [] \<and> buf = frame (hd (write_message s))
      | _ \<Rightarrow> True)"


text \<open>
  The lines that a reader forwards out of the bytes \<open>s\<close> still to come, and the error
  that ends it: a line is cut after its first delimiter, which has to lie within the
  first 1024 bytes.
\<close>

function forwarded :: "string \<Rightarrow> string list" where
  "forwarded s =
     (case find_delim (take max_size s) of
        None \<Rightarrow> []
      | Some i \<Rightarrow> take (Suc i) s # forwarded (drop (Suc i) s))"
  by pat_completeness auto
termination
proof (relation "measure length")
  show "wf (measure length)" by simp
next
  fix s :: string and i
  assume "find_delim (take max_size s) = Some i"
  moreover have "find_delim t = Some j \<Longrightarrow> j < length t" for t j
    by (induction t arbitrary: j) (auto split: if_splits)
  ultimately have "i < length (take max_size s)"
    by blast
  then show "(drop (Suc i) s, s) \<in> measure length"
    by auto
qed

function failure :: "error_code \<Rightarrow> string \<Rightarrow> error_code" where
  "failure fin s =
     (case find_delim (take max_size s) of
        None \<Rightarrow> if max_size \<le> length s then not_found else fin
      | Some i \<Rightarrow> failure fin (drop (Suc i) s))"
  by pat_completeness auto
termination
proof (relation "measure (\<lambda>(fin, s). length s)")
  show "wf (measure (\<lambda>(fin, s). length s))" by simp
next
  fix fin :: error_code and s :: string and i
  assume "find_delim (take max_size s) = Some i"
  moreover have "find_delim t = Some j \<Longrightarrow> j < length t" for t j
    by (induction t arbitrary: j) (auto split: if_splits)
  ultimately have "i < length (take max_size s)"
    by blast
  then show "((fin, drop (Suc i) s), (fin, s)) \<in> measure (\<lambda>(fin, s). length s)"
    by auto
qed

declare forwarded.simps [simp del] failure.simps [simp del]

section \<open>Frame lemmas\<close>

lemma cancel_frame [simp]:
  "users (cancel a w) = users w"
  "recent_message (cancel a w) = recent_message w"
  "cerr (cancel a w) = cerr w"
  "spawned (cancel a w) = spawned w"
  by (simp_all add: cancel_def cancel_one_def Let_def)

lemma cancel_sessions:
  "sessions (cancel a w) =
     (sessions w)(a := (sessions w a)\<lparr>timer_waits := timer_waits (sessions w a) - 1\<rparr>)"
  by (simp add: cancel_def cancel_one_def Let_def)

lemma deliver_frame [simp]:
  "users (deliver a msg w) = users w"
  "recent_message (deliver a msg w) = recent_message w"
  "cerr (deliver a msg w) = cerr w"
  "spawned (deliver a msg w) = spawned w"
  by (simp_all add: deliver_def Let_def)

lemma deliver_sessions:
  "sessions (deliver a msg w) =
     (sessions w)(a := (sessions w a)\<lparr>write_message := write_message (sessions w a) @ [msg],
                                      timer_waits := timer_waits (sessions w a) - 1\<rparr>)"
  by (simp add: deliver_def cancel_sessions Let_def)

lemma fold_deliver_users_frame [simp]:
  "users (fold (\<lambda>u. deliver u msg) us w) = users w"
  "recent_message (fold (\<lambda>u. deliver u msg) us w) = recent_message w"
  by (induction us arbitrary: w) simp_all

lemma fold_deliver_msgs_frame [simp]:
  "users (fold (\<lambda>m. deliver a m) ms w) = users w"
  "recent_message (fold (\<lambda>m. deliver a m) ms w) = recent_message w"
  by (induction ms arbitrary: w) simp_all

lemma pop_excess_drop: "pop_excess q = drop (length q - max_recent) q"
proof (induction q rule: pop_excess.induct)
  case (1 q)
  show ?case
  proof (cases "max_recent < length q")
    case True
    then obtain x xs where q: "q = x # xs"
      by (cases q) auto
    have "pop_excess q = pop_excess (tl q)"
      using True by (subst pop_excess.simps) simp
    also have "\<dots> = drop (length xs - max_recent) xs"
      using 1 [OF True] q by simp
    also have "\<dots> = drop (Suc (length xs - max_recent)) q"
      using q by simp
    also have "Suc (length xs - max_recent) = length q - max_recent"
      using True q by simp
    finally show ?thesis .
  next
    case False
    then show ?thesis by (subst pop_excess.simps) simp
  qed
qed

lemma room_deliver_history:
  "recent_message (room_deliver msg w) =
     drop (Suc (length (recent_message w)) - max_recent) (recent_message w @ [msg])"
  by (simp add: room_deliver_def Let_def pop_excess_drop)

lemma join_history [simp]: "recent_message (join a w) = recent_message w"
  by (simp add: join_def Let_def)

lemma leave_history [simp]: "recent_message (leave a w) = recent_message w"
  by (simp add: leave_def)

lemma window_append:
  assumes "j \<le> length xs - m"
  shows "drop (length (drop j xs @ ys) - m) (drop j xs @ ys) =
         drop (length (xs @ ys) - m) (xs @ ys)"
proof -
  have j: "j \<le> length xs"
    using assms by simp
  then have "drop j xs @ ys = drop j (xs @ ys)"
    by simp
  then have "drop (length (drop j xs @ ys) - m) (drop j xs @ ys) =
             drop (length (drop j xs @ ys) - m + j) (xs @ ys)"
    by (simp only: drop_drop)
  also have "length (drop j xs @ ys) - m + j = length (xs @ ys) - m"
    using assms j by simp
  finally show ?thesis .
qed

lemma room_calls_history:
  "recent_message (fold room_call ops w) =
     drop (length (recent_message w @ delivered ops) - max_recent)
          (recent_message w @ delivered ops)"
  if "length (recent_message w) \<le> max_recent"
  using that
proof (induction ops arbitrary: w)
  case Nil
  then show ?case by simp
next
  case (Cons op ops)
  show ?case
  proof (cases op)
    case (Join a)
    with Cons show ?thesis by simp
  next
    case (Leave a)
    with Cons show ?thesis by simp
  next
    case (Deliver msg)
    let ?h = "recent_message w"
    let ?h' = "recent_message (room_deliver msg w)"
    have h': "?h' = drop (Suc (length ?h) - max_recent) (?h @ [msg])"
      by (rule room_deliver_history)
    have len: "length ?h' \<le> max_recent"
      using Cons.prems by (simp add: h')
    have "recent_message (fold room_call (op # ops) w) =
          drop (length (?h' @ delivered ops) - max_recent) (?h' @ delivered ops)"
      using Cons.IH [OF len] Deliver by simp
    also have "\<dots> = drop (length ((?h @ [msg]) @ delivered ops) - max_recent)
                        ((?h @ [msg]) @ delivered ops)"
      unfolding h' by (rule window_append) simp
    also have "(?h @ [msg]) @ delivered ops = ?h @ delivered (op # ops)"
      using Deliver by simp
    finally show ?thesis .
  qed
qed

section \<open>Effect of the room operations on the sessions\<close>

lemma distinct_sorted_list_of_fset: "distinct (sorted_list_of_fset S)"
  by (simp add: sorted_list_of_fset.rep_eq)

lemma fold_deliver_users_sessions:
  "distinct us \<Longrightarrow>
   sessions (fold (\<lambda>u. deliver u msg) us w) a =
     (if a \<in> set us
      then (sessions w a)\<lparr>write_message := write_message (sessions w a) @ [msg],
                          timer_waits := timer_waits (sessions w a) - 1\<rparr>
      else sessions w a)"
  by (induction us arbitrary: w) (auto simp: deliver_sessions)

lemma room_deliver_sessions:
  "sessions (room_deliver msg w) a =
     (if a |\<in>| users w
      then (sessions w a)\<lparr>write_message := write_message (sessions w a) @ [msg],
                          timer_waits := timer_waits (sessions w a) - 1\<rparr>
      else sessions w a)"
  by (simp add: room_deliver_def Let_def fold_deliver_users_sessions
      distinct_sorted_list_of_fset)

lemma room_deliver_users [simp]: "users (room_deliver msg w) = users w"
  by (simp add: room_deliver_def Let_def)

lemma fold_deliver_msgs_sessions:
  "sessions (fold (\<lambda>m. deliver a m) ms w) =
     (sessions w)(a := (sessions w a)\<lparr>write_message := write_message (sessions w a) @ ms,
                                      timer_waits := timer_waits (sessions w a) - length ms\<rparr>)"
proof (induction ms arbitrary: w)
  case Nil
  show ?case by simp
next
  case (Cons m ms)
  show ?case
    by (rule ext) (simp add: Cons.IH deliver_sessions)
qed

lemma join_sessions:
  "sessions (join a w) =
     (sessions w)(a := (sessions w a)
        \<lparr>write_message := write_message (sessions w a) @ recent_message w,
         timer_waits := timer_waits (sessions w a) - length (recent_message w)\<rparr>)"
  by (simp add: join_def Let_def fold_deliver_msgs_sessions)

lemma join_users [simp]: "users (join a w) = finsert a (users w)"
  by (simp add: join_def Let_def)

section \<open>The room: history and fan-out\<close>

text \<open>
  Claim C1. Starting from an empty history, after any sequence of room calls of which
  N are \<open>deliver\<close>, the history holds exactly the last \<open>min N 10\<close> delivered messages in
  arrival order: the oldest entries are the ones dropped, and the history never holds
  more than 10 entries.
\<close>

theorem history_bound:
  "recent_message (fold room_call ops (w\<lparr>recent_message := []\<rparr>)) =
     drop (length (delivered ops) - 10) (delivered ops) \<and>
   length (recent_message (fold room_call ops (w\<lparr>recent_message := []\<rparr>))) =
     min (length (delivered ops)) 10"
proof -
  have "recent_message (fold room_call ops (w\<lparr>recent_message := []\<rparr>)) =
        drop (length (delivered ops) - 10) (delivered ops)"
    using room_calls_history [of "w\<lparr>recent_message := []\<rparr>" ops]
    by (simp add: max_recent_def)
  then show ?thesis
    by auto
qed

theorem history_bound_witness:
  "recent_message (fold room_call
      (map Deliver [''m1'', ''m2'', ''m3'', ''m4'', ''m5'', ''m6'', ''m7'', ''m8'', ''m9'',
                    ''m10'', ''m11''])
      (new_world (\<lambda>a. [])\<lparr>recent_message := []\<rparr>)) =
     [''m2'', ''m3'', ''m4'', ''m5'', ''m6'', ''m7'', ''m8'', ''m9'', ''m10'', ''m11'']"
  using history_bound [of "map Deliver [''m1'', ''m2'', ''m3'', ''m4'', ''m5'', ''m6'', ''m7'',
      ''m8'', ''m9'', ''m10'', ''m11'']" "new_world (\<lambda>a. [])"]
  by simp

text \<open>
  Claim C2. \<open>ChatRoom::deliver\<close> appends the message exactly once to the outbound queue
  of every session that is a member at the time of the call, whoever sent it, and
  leaves every session that is not a member as it was; the member set is unchanged.
\<close>

theorem fan_out:
  "write_message (sessions (room_deliver msg w) a) =
     (if a |\<in>| users w then write_message (sessions w a) @ [msg]
      else write_message (sessions w a)) \<and>
   (a |\<notin>| users w \<longrightarrow> sessions (room_deliver msg w) a = sessions w a) \<and>
   users (room_deliver msg w) = users w"
  by (simp add: room_deliver_sessions)

theorem fan_out_witness:
  "write_message (sessions (room_deliver ''hello'' (join 2 (join 1 (new_world (\<lambda>a. []))))) 1) =
     [''hello''] \<and>
   write_message (sessions (room_deliver ''hello'' (join 2 (join 1 (new_world (\<lambda>a. []))))) 2) =
     [''hello''] \<and>
   sessions (room_deliver ''hello'' (join 2 (join 1 (new_world (\<lambda>a. []))))) 3 =
     new_session []"
  using fan_out [of "''hello''" "join 2 (join 1 (new_world (\<lambda>a. [])))" 1]
    fan_out [of "''hello''" "join 2 (join 1 (new_world (\<lambda>a. [])))" 2]
    fan_out [of "''hello''" "join 2 (join 1 (new_world (\<lambda>a. [])))" 3]
  by (simp add: join_sessions new_world_def new_session_def)

text \<open>
  Claim C4. When at most 10 messages have been delivered to a room whose history was
  empty, a following \<open>join\<close> appends exactly these messages, in arrival order, to the
  queue of the joining session; no other session is touched and the history stays as
  it is.
\<close>

theorem replay_on_join:
  assumes "length (delivered ops) \<le> 10"
  shows "write_message (sessions (join u (fold room_call ops (w\<lparr>recent_message := []\<rparr>))) u) =
           write_message (sessions (fold room_call ops (w\<lparr>recent_message := []\<rparr>)) u) @
           delivered ops \<and>
         (\<forall>v. v \<noteq> u \<longrightarrow>
            sessions (join u (fold room_call ops (w\<lparr>recent_message := []\<rparr>))) v =
            sessions (fold room_call ops (w\<lparr>recent_message := []\<rparr>)) v) \<and>
         recent_message (join u (fold room_call ops (w\<lparr>recent_message := []\<rparr>))) =
           delivered ops"
proof -
  have "recent_message (fold room_call ops (w\<lparr>recent_message := []\<rparr>)) = delivered ops"
    using room_calls_history [of "w\<lparr>recent_message := []\<rparr>" ops] assms
    by (simp add: max_recent_def)
  then show ?thesis
    by (simp add: join_sessions)
qed

theorem replay_on_join_witness:
  "write_message (sessions (join 2 (fold room_call [Join 1, Deliver ''m1'', Deliver ''m2'']
       (new_world (\<lambda>a. [])\<lparr>recent_message := []\<rparr>))) 2) = [''m1'', ''m2''] \<and>
   write_message (sessions (join 2 (fold room_call [Join 1, Deliver ''m1'', Deliver ''m2'']
       (new_world (\<lambda>a. [])\<lparr>recent_message := []\<rparr>))) 1) = [''m1'', ''m2'']"
proof -
  have len: "length (delivered [Join 1, Deliver ''m1'', Deliver ''m2'']) \<le> 10"
    by simp
  have one: "(1::nat) \<noteq> 2"
    by simp
  show ?thesis
    using replay_on_join [OF len, of 2 "new_world (\<lambda>a. [])"] one
    by (simp add: room_deliver_sessions join_sessions new_world_def new_session_def)
qed

text \<open>
  Claim C10. \<open>join\<close> of a session that is already a member leaves the member set as
  it is and appends the whole current history to the queue of that session once more.
\<close>

theorem rejoin_replays_history:
  assumes "a |\<in>| users w"
  shows "users (join a w) = users w \<and>
         write_message (sessions (join a w) a) =
           write_message (sessions w a) @ recent_message w \<and>
         write_message (sessions (join a (join a w)) a) =
           write_message (sessions w a) @ recent_message w @ recent_message w"
  using assms by (auto simp: join_sessions)

theorem rejoin_replays_history_witness:
  "1 |\<in>| users (room_deliver ''m1'' (join 1 (new_world (\<lambda>a. [])))) \<and>
   users (join 1 (room_deliver ''m1'' (join 1 (new_world (\<lambda>a. []))))) = {|1|} \<and>
   write_message (sessions (join 1 (room_deliver ''m1'' (join 1 (new_world (\<lambda>a. []))))) 1) =
     [''m1'', ''m1'']"
proof -
  have mem: "1 |\<in>| users (room_deliver ''m1'' (join 1 (new_world (\<lambda>a. []))))"
    by simp
  show ?thesis
    using mem rejoin_replays_history [OF mem]
    by (simp add: room_deliver_sessions room_deliver_history join_sessions new_world_def
        new_session_def max_recent_def)
qed

section \<open>Effect of start, stop and cancel\<close>

lemma stop_users [simp]: "users (stop a w) = users w |-| {|a|}"
  by (simp add: stop_def leave_def Let_def)

lemma stop_sessions:
  "sessions (stop a w) =
     (sessions w)(a := (sessions w a)\<lparr>socket_open := False, timer_waits := 0\<rparr>)"
  by (simp add: stop_def leave_def timer_cancel_def Let_def)

lemma stop_frame [simp]:
  "recent_message (stop a w) = recent_message w"
  "cout (stop a w) = cout w"
  "cerr (stop a w) = cerr w"
  "spawned (stop a w) = spawned w"
  by (simp_all add: stop_def leave_def Let_def)

lemma fold_deliver_msgs_spawned [simp]:
  "spawned (fold (\<lambda>m. deliver a m) ms w) = spawned w"
  by (induction ms arbitrary: w) simp_all

lemma join_spawned [simp]: "spawned (join a w) = spawned w"
  by (simp add: join_def Let_def)

lemma no_waits_update: "timer_waits s = 0 \<Longrightarrow> s\<lparr>timer_waits := 0\<rparr> = s"
  by (cases s) simp

lemma start_sessions:
  "sessions (start a w) =
     (sessions w)(a := (sessions w a)
        \<lparr>write_message := write_message (sessions w a) @ recent_message w @
           [''Welcome to the chat, '' @ username (sessions w a) @ ''!''],
         timer_waits := timer_waits (sessions w a) - length (recent_message w) - 1\<rparr>)"
  by (rule ext) (simp add: start_def Let_def deliver_sessions join_sessions)

lemma to_string_0: "to_string 0 = ''0''"
  by (subst to_string.simps) simp
lemma to_string_1: "to_string (Suc 0) = ''1''"
  by (subst to_string.simps) simp

text \<open>
  Claim C6. \<open>start\<close> makes the session a member and appends to its own queue the
  history followed by the welcome line built from its username. The history of the
  room is unchanged, every other session is left exactly as it was, and the reader
  and the writer are handed to the executor.
\<close>

theorem welcome_is_private:
  "recent_message (start a w) = recent_message w \<and>
   users (start a w) = finsert a (users w) \<and>
   write_message (sessions (start a w) a) =
     write_message (sessions w a) @ recent_message w @
     [''Welcome to the chat, '' @ username (sessions w a) @ ''!''] \<and>
   (\<forall>b. b \<noteq> a \<longrightarrow> sessions (start a w) b = sessions w b) \<and>
   spawned (start a w) = spawned w @ [Reader a, Writer a]"
  by (simp add: start_sessions) (simp add: start_def Let_def)

theorem welcome_is_private_witness:
  "write_message (sessions (start 2 (room_deliver ''m1'' (start 1 (new_world (\<lambda>a. ''bob''))))) 2) =
     [''m1'', ''Welcome to the chat, bob!''] \<and>
   write_message (sessions (start 2 (room_deliver ''m1'' (start 1 (new_world (\<lambda>a. ''bob''))))) 1) =
     [''Welcome to the chat, bob!'', ''m1''] \<and>
   recent_message (start 2 (room_deliver ''m1'' (start 1 (new_world (\<lambda>a. ''bob''))))) = [''m1'']"
proof -
  have ne: "(1::nat) \<noteq> 2"
    by simp
  show ?thesis
    using welcome_is_private [of 2 "room_deliver ''m1'' (start 1 (new_world (\<lambda>a. ''bob'')))"] ne
    by (simp add: room_deliver_sessions room_deliver_history start_sessions max_recent_def)
       (simp add: start_def Let_def new_world_def new_session_def)
qed

text \<open>
  Claim C7. A second \<open>stop\<close> changes nothing: the state after two calls is the state
  after one, in which the session is no member, its socket is closed and no wait is
  pending on its timer. \<open>stop\<close> has no failing branch, and \<open>leave\<close> of a session that is
  no member returns the room unchanged.
\<close>

theorem stop_idempotent:
  "stop a (stop a w) = stop a w \<and>
   a |\<notin>| users (stop a w) \<and>
   \<not> socket_open (sessions (stop a w) a) \<and>
   timer_waits (sessions (stop a w) a) = 0 \<and>
   (a |\<notin>| users w \<longrightarrow> leave a w = w)"
proof -
  have "stop a (stop a w) = stop a w"
    by (simp add: stop_def leave_def timer_cancel_def Let_def)
  moreover have "a |\<notin>| users w \<longrightarrow> leave a w = w"
    by (simp add: leave_def)
  ultimately show ?thesis
    by (simp add: stop_sessions)
qed

theorem stop_idempotent_witness:
  "users (stop 1 (stop 1 (start 1 (new_world (\<lambda>a. ''bob''))))) = {||} \<and>
   \<not> socket_open (sessions (stop 1 (stop 1 (start 1 (new_world (\<lambda>a. ''bob''))))) 1) \<and>
   leave 2 (start 1 (new_world (\<lambda>a. ''bob''))) = start 1 (new_world (\<lambda>a. ''bob''))"
proof -
  have non: "2 |\<notin>| users (start 1 (new_world (\<lambda>a. ''bob'')))"
    by (simp add: start_def Let_def new_world_def)
  show ?thesis
    using stop_idempotent [of 1 "start 1 (new_world (\<lambda>a. ''bob''))"]
      stop_idempotent [of 2 "start 1 (new_world (\<lambda>a. ''bob''))"] non
    by (simp add: start_def Let_def new_world_def)
qed

text \<open>
  Claim C9. \<open>cancel\<close> completes one pending wait of the timer if there is one, and
  prints how many it completed (1 or 0). With no wait pending it changes nothing but
  the output stream; it never touches a queue or a socket. A session has at most one
  wait pending (only its writer waits), and then a second \<open>cancel\<close> leaves the sessions
  as the first one left them.
\<close>

theorem cancel_wakes_one:
  "timer_waits (sessions (cancel a w) a) =
     timer_waits (sessions w a) - (if 0 < timer_waits (sessions w a) then 1 else 0) \<and>
   cout (cancel a w) = cout w @
     [''Number of cancelled operations: '' @
      (if 0 < timer_waits (sessions w a) then ''1'' else ''0'')] \<and>
   (timer_waits (sessions w a) = 0 \<longrightarrow>
      sessions (cancel a w) = sessions w \<and> cancel a w = w\<lparr>cout := cout (cancel a w)\<rparr>) \<and>
   write_message (sessions (cancel a w) b) = write_message (sessions w b) \<and>
   socket_open (sessions (cancel a w) b) = socket_open (sessions w b) \<and>
   (timer_waits (sessions w a) \<le> 1 \<longrightarrow>
      sessions (cancel a (cancel a w)) = sessions (cancel a w))"
  by (auto simp: cancel_def cancel_one_def Let_def to_string_0 to_string_1 no_waits_update)

theorem cancel_wakes_one_witness:
  "timer_waits (sessions (snd (writer_loop 1 (new_world (\<lambda>a. [])))) 1) = 1 \<and>
   timer_waits (sessions (cancel 1 (snd (writer_loop 1 (new_world (\<lambda>a. []))))) 1) = 0 \<and>
   cout (cancel 1 (snd (writer_loop 1 (new_world (\<lambda>a. []))))) =
     [''Number of cancelled operations: 1''] \<and>
   sessions (cancel 1 (cancel 1 (snd (writer_loop 1 (new_world (\<lambda>a. [])))))) =
     sessions (cancel 1 (snd (writer_loop 1 (new_world (\<lambda>a. []))))) \<and>
   cout (cancel 1 (new_world (\<lambda>a. []))) = [''Number of cancelled operations: 0''] \<and>
   sessions (cancel 1 (new_world (\<lambda>a. []))) = sessions (new_world (\<lambda>a. []))"
proof -
  have one: "timer_waits (sessions (snd (writer_loop 1 (new_world (\<lambda>a. [])))) 1) = 1"
    by (simp add: writer_loop_def new_world_def new_session_def)
  have none: "timer_waits (sessions (new_world (\<lambda>a. [])) 1) = 0"
    by (simp add: new_world_def new_session_def)
  have out: "cout (snd (writer_loop 1 (new_world (\<lambda>a. [])))) = []"
    "cout (new_world (\<lambda>a. [])) = []"
    by (simp_all add: writer_loop_def new_world_def new_session_def)
  show ?thesis
    using cancel_wakes_one [of 1 "snd (writer_loop 1 (new_world (\<lambda>a. [])))" 1]
      cancel_wakes_one [of 1 "new_world (\<lambda>a. [])" 1] one none out
    by simp
qed

section \<open>The writer: first in, first out\<close>

lemma writer_inv_simps [simp]:
  "writer_inv Spawned s"
  "writer_inv At_wait s"
  "writer_inv Finished s"
  "writer_inv (At_write buf) s \<longleftrightarrow>
     write_message s \<noteq> [] \<and> buf = frame (hd (write_message s))"
  by (simp_all add: writer_inv_def)










lemma fold_deliver_msgs_open [simp]:
  "socket_open (sessions (fold (\<lambda>m. deliver a m) ms w) a) = socket_open (sessions w a)"
  by (simp add: fold_deliver_msgs_sessions)




lemma writer_loop_waits:
  assumes "timer_waits (sessions w a) = 0" and "writer_loop a w = (pc', w')"
  shows "timer_waits (sessions w' a) \<le> (if pc' = At_wait then 1 else 0)"
  using assms by (auto simp: writer_loop_def Let_def split: if_splits)

lemma writer_resume_waits:
  assumes "timer_waits (sessions w a) \<le> (if pc = At_wait then 1 else 0)"
    and "resumable pc (sessions w a)"
    and "writer_resume a r pc w = Some (pc', w')"
  shows "timer_waits (sessions w' a) \<le> (if pc' = At_wait then 1 else 0)"
proof (cases pc)
  case Spawned
  with assms have "timer_waits (sessions w a) = 0" "writer_loop a w = (pc', w')"
    by simp_all
  then show ?thesis
    by (rule writer_loop_waits)
next
  case (At_write buf)
  show ?thesis
  proof (cases r)
    case None
    with assms(3) At_write obtain front rest
      where q: "write_message (sessions w a) = front # rest"
      by (cases "write_message (sessions w a)") (simp_all add: Let_def)
    define w1 where "w1 = w\<lparr>sessions := (sessions w)(a := (sessions w a)
        \<lparr>socket_sent := socket_sent (sessions w a) @ [buf], write_message := rest\<rparr>)\<rparr>"
    have "timer_waits (sessions w1 a) = 0"
      using assms(1) At_write by (simp add: w1_def)
    moreover have "writer_loop a w1 = (pc', w')"
      using assms(3) At_write None q by (simp add: w1_def Let_def)
    ultimately show ?thesis
      by (rule writer_loop_waits)
  next
    case (Some e)
    with assms At_write show ?thesis
      by (auto simp: stop_sessions)
  qed
next
  case At_wait
  with assms have "timer_waits (sessions w a) = 0" "writer_loop a w = (pc', w')"
    by simp_all
  then show ?thesis
    by (rule writer_loop_waits)
next
  case Finished
  with assms show ?thesis by simp
qed

lemma run_single_waiter:
  assumes "timer_waits (sessions w a) \<le> (if pc = At_wait then 1 else 0)"
    and "run a evs (pc, w) = Some (pc', w')"
  shows "timer_waits (sessions w' a) \<le> (if pc' = At_wait then 1 else 0)"
  using assms
proof (induction evs arbitrary: pc w)
  case Nil
  then show ?case by simp
next
  case (Cons ev evs)
  show ?case
  proof (cases ev)
    case (Ev_deliver msg)
    have "timer_waits (sessions (deliver a msg w) a) \<le> (if pc = At_wait then 1 else 0)"
      using Cons.prems(1) by (simp add: deliver_sessions)
    from Cons.IH [OF this] Cons.prems(2) Ev_deliver show ?thesis
      by simp
  next
    case Ev_stop
    have "timer_waits (sessions (stop a w) a) \<le> (if pc = At_wait then 1 else 0)"
      by (simp add: stop_sessions)
    from Cons.IH [OF this] Cons.prems(2) Ev_stop show ?thesis
      by simp
  next
    case (Ev_resume r)
    show ?thesis
    proof (cases "resumable pc (sessions w a)")
      case True
      with Cons.prems(2) Ev_resume obtain pc1 w1
        where res: "writer_resume a r pc w = Some (pc1, w1)"
          and rest: "run a evs (pc1, w1) = Some (pc', w')"
        by (auto split: option.splits)
      from Cons.IH [OF writer_resume_waits [OF Cons.prems(1) True res] rest] show ?thesis .
    next
      case False
      with Cons.IH [OF Cons.prems(1)] Cons.prems(2) Ev_resume show ?thesis
        by simp
    qed
  qed
qed

lemma fold_deliver_msgs_cerr [simp]:
  "cerr (fold (\<lambda>m. deliver a m) ms w) = cerr w"
  by (induction ms arbitrary: w) simp_all

lemma join_cerr [simp]: "cerr (join a w) = cerr w"
  by (simp add: join_def Let_def)

section \<open>The reader\<close>

lemma find_delim_None: "find_delim s = None \<longleftrightarrow> nl \<notin> set s"
  by (induction s) auto

lemma find_delim_Some:
  "find_delim s = Some i \<Longrightarrow> i < length s \<and> s ! i = nl \<and> nl \<notin> set (take i s)"
  by (induction s arbitrary: i) (auto split: if_splits)

lemma find_delim_append:
  "find_delim (xs @ ys) =
     (case find_delim xs of
        Some i \<Rightarrow> Some i
      | None \<Rightarrow> (case find_delim ys of None \<Rightarrow> None | Some j \<Rightarrow> Some (length xs + j)))"
  by (induction xs) (auto split: option.splits)

lemma find_delim_take:
  "find_delim (take n s) =
     (case find_delim s of Some i \<Rightarrow> if i < n then Some i else None | None \<Rightarrow> None)"
proof (induction s arbitrary: n)
  case Nil
  show ?case by simp
next
  case (Cons c s)
  show ?case
    by (cases n) (auto simp: Cons.IH split: option.splits)
qed

text \<open>
  What one read returns, in terms of the bytes still to come: however the transport
  cuts them into chunks, the outcome depends on the first 1024 pending bytes only.
\<close>

lemma async_read_until_spec:
  assumes "length buf \<le> max_size"
  shows "case find_delim (take max_size (buf @ concat chunks)) of
           Some i \<Rightarrow>
             (\<exists>b cs. async_read_until fin buf chunks = (Inr (Suc i), b, cs) \<and>
                b @ concat cs = buf @ concat chunks \<and> length b \<le> max_size \<and>
                i < length b)
         | None \<Rightarrow>
             fst (async_read_until fin buf chunks) =
               Inl (if max_size \<le> length (buf @ concat chunks) then not_found else fin)"
  using assms
proof (induction fin buf chunks rule: async_read_until.induct)
  case (1 fin buf chunks)
  let ?S = "buf @ concat chunks"
  show ?case
  proof (cases "find_delim buf")
    case (Some i)
    then have "i < length buf"
      by (simp add: find_delim_Some)
    then have "find_delim (take max_size ?S) = Some i"
      using Some "1.prems" by (simp add: find_delim_take find_delim_append)
    moreover have "async_read_until fin buf chunks = (Inr (Suc i), buf, chunks)"
      by (subst async_read_until.simps) (simp add: Some)
    ultimately show ?thesis
      using "1.prems" \<open>i < length buf\<close> by simp
  next
    case None
    show ?thesis
    proof (cases "max_size \<le> length buf")
      case True
      then have "take max_size ?S = buf"
        using "1.prems" by simp
      moreover have "async_read_until fin buf chunks = (Inl not_found, buf, chunks)"
        by (subst async_read_until.simps) (simp add: None True)
      ultimately show ?thesis
        using None True by simp
    next
      case False
      show ?thesis
      proof (cases chunks)
        case Nil
        have "async_read_until fin buf chunks = (Inl fin, buf, [])"
          by (subst async_read_until.simps) (simp add: None False Nil)
        then show ?thesis
          using None False Nil by (simp add: find_delim_take)
      next
        case (Cons c cs)
        show ?thesis
        proof (cases "c = []")
          case True
          have "async_read_until fin buf chunks = async_read_until fin buf cs"
            by (subst async_read_until.simps) (simp add: None False Cons True)
          then have eq1: "async_read_until fin buf cs = async_read_until fin buf chunks"
            by simp
          have eq2: "buf @ concat cs = ?S"
            by (simp add: Cons True)
          show ?thesis
            using "1.IH"(1) [OF None False Cons True "1.prems"] by (simp only: eq1 eq2)
        next
          case nonempty: False
          define k where "k = min (length c) (max_size - length buf)"
          define cs' where "cs' = (if k < length c then drop k c # cs else cs)"
          have "async_read_until fin buf chunks = async_read_until fin (buf @ take k c) cs'"
            by (subst async_read_until.simps)
               (simp add: None False Cons nonempty k_def cs'_def Let_def)
          then have eq1: "async_read_until fin (buf @ take k c) cs' =
                          async_read_until fin buf chunks"
            by simp
          have eq2: "(buf @ take k c) @ concat cs' = ?S"
            by (simp add: cs'_def Cons)
          have len: "length (buf @ take k c) \<le> max_size"
            using False by (simp add: k_def)
          show ?thesis
            using "1.IH"(2) [OF None False Cons nonempty k_def len, folded cs'_def]
            by (simp only: eq1 eq2)
        qed
      qed
    qed
  qed
qed

lemma reader_run:
  assumes "length read_message \<le> max_size"
  shows "reader a fin chunks read_message w =
           on_read_error (failure fin (read_message @ concat chunks)) a
             (fold room_deliver (forwarded (read_message @ concat chunks)) w)"
  using assms
proof (induction a fin chunks read_message w rule: reader.induct)
  case (1 a fin chunks read_message w)
  let ?S = "read_message @ concat chunks"
  note spec = async_read_until_spec [where chunks = chunks and fin = fin, OF "1.prems"]
  show ?case
  proof (cases "find_delim (take max_size ?S)")
    case None
    with spec have "fst (async_read_until fin read_message chunks) =
        Inl (if max_size \<le> length ?S then not_found else fin)"
      by simp
    then have "reader a fin chunks read_message w =
        on_read_error (if max_size \<le> length ?S then not_found else fin) a w"
      by (subst reader.simps) (auto split: prod.splits)
    moreover have "forwarded ?S = []"
      by (subst forwarded.simps) (simp only: None option.case)
    moreover have "failure fin ?S = (if max_size \<le> length ?S then not_found else fin)"
      by (subst failure.simps) (simp only: None option.case)
    ultimately show ?thesis
      by simp
  next
    case (Some i)
    with spec obtain b cs where res: "async_read_until fin read_message chunks = (Inr (Suc i), b, cs)"
      and S: "b @ concat cs = ?S" and len: "length b \<le> max_size" and i: "i < length b"
      by auto
    have rest: "drop (Suc i) b @ concat cs = drop (Suc i) ?S"
      using i by (simp flip: S)
    have line: "take (Suc i) b = take (Suc i) ?S"
      using i by (simp flip: S)
    have "reader a fin chunks read_message w =
          reader a fin cs (drop (Suc i) b) (room_deliver (take (Suc i) b) w)"
      by (subst reader.simps) (simp add: res)
    also have "\<dots> = on_read_error (failure fin (drop (Suc i) b @ concat cs)) a
        (fold room_deliver (forwarded (drop (Suc i) b @ concat cs))
           (room_deliver (take (Suc i) b) w))"
      using "1.IH" [OF refl res [symmetric] refl refl] len by simp
    also have "\<dots> = on_read_error (failure fin (drop (Suc i) ?S)) a
        (fold room_deliver (take (Suc i) ?S # forwarded (drop (Suc i) ?S)) w)"
      by (simp only: rest line fold_simps)
    also have "take (Suc i) ?S # forwarded (drop (Suc i) ?S) = forwarded ?S"
      by (subst (2) forwarded.simps) (simp only: Some option.case)
    also have "failure fin (drop (Suc i) ?S) = failure fin ?S"
      by (subst (2) failure.simps) (simp only: Some option.case)
    finally show ?thesis .
  qed
qed

lemma forwarded_terminated:
  "l \<in> set (forwarded s) \<Longrightarrow> l \<noteq> [] \<and> last l = nl \<and> nl \<notin> set (butlast l)"
proof (induction s rule: forwarded.induct)
  case (1 s)
  show ?case
  proof (cases "find_delim (take max_size s)")
    case None
    with "1.prems" show ?thesis
      by (subst (asm) forwarded.simps) (simp only: None option.case list.set empty_iff)
  next
    case (Some i)
    then have i: "i < length s" "s ! i = nl" "nl \<notin> set (take i s)"
      using find_delim_Some [of s i] by (auto simp: find_delim_take split: option.splits if_splits)
    from "1.prems" have "l \<in> set (take (Suc i) s # forwarded (drop (Suc i) s))"
      by (subst (asm) forwarded.simps) (simp only: Some option.case)
    then have "l = take (Suc i) s \<or> l \<in> set (forwarded (drop (Suc i) s))"
      by simp
    then show ?thesis
    proof
      assume "l = take (Suc i) s"
      then have "l = take i s @ [nl]"
        using i by (simp add: take_Suc_conv_app_nth)
      then show ?thesis
        using i by simp
    next
      assume "l \<in> set (forwarded (drop (Suc i) s))"
      then show ?thesis
        by (rule "1.IH" [OF Some])
    qed
  qed
qed

text \<open>
  Claim C8. When the first 1024 bytes still to come hold no delimiter (the line does
  not fit into the buffer), the read fails with \<open>not_found\<close>; the reader handles it as
  it handles the failure \<open>fin\<close> of the transport itself: it logs the error and calls
  \<open>stop\<close>. In both cases the session ends closed: it is no member of the room any
  more, its socket is closed and no wait is pending on its timer. Nothing is
  forwarded to the room: the history and every other session are as they were.
\<close>

theorem oversized_line_stops:
  assumes "length read_message \<le> 1024"
  shows "(nl \<notin> set (take 1024 (read_message @ concat chunks)) \<and>
          1024 \<le> length (read_message @ concat chunks) \<longrightarrow>
            reader a fin chunks read_message w =
              stop a (w\<lparr>cerr := cerr w @ [''Async read error: '' @ message not_found]\<rparr>) \<and>
            a |\<notin>| users (reader a fin chunks read_message w) \<and>
            users (reader a fin chunks read_message w) = users w |-| {|a|} \<and>
            \<not> socket_open (sessions (reader a fin chunks read_message w) a) \<and>
            timer_waits (sessions (reader a fin chunks read_message w) a) = 0 \<and>
            recent_message (reader a fin chunks read_message w) = recent_message w \<and>
            (\<forall>b. b \<noteq> a \<longrightarrow>
               sessions (reader a fin chunks read_message w) b = sessions w b)) \<and>
         (nl \<notin> set (read_message @ concat chunks) \<and>
          length (read_message @ concat chunks) < 1024 \<longrightarrow>
            reader a fin chunks read_message w =
              stop a (w\<lparr>cerr := cerr w @ [''Async read error: '' @ message fin]\<rparr>) \<and>
            a |\<notin>| users (reader a fin chunks read_message w) \<and>
            users (reader a fin chunks read_message w) = users w |-| {|a|} \<and>
            \<not> socket_open (sessions (reader a fin chunks read_message w) a) \<and>
            timer_waits (sessions (reader a fin chunks read_message w) a) = 0 \<and>
            recent_message (reader a fin chunks read_message w) = recent_message w \<and>
            (\<forall>b. b \<noteq> a \<longrightarrow>
               sessions (reader a fin chunks read_message w) b = sessions w b))"
proof -
  let ?S = "read_message @ concat chunks"
  have len: "length read_message \<le> max_size"
    using assms by (simp add: max_size_def)
  note spec = async_read_until_spec [where chunks = chunks and fin = fin, OF len]
  have fail: "reader a fin chunks read_message w = on_read_error e a w"
    if "fst (async_read_until fin read_message chunks) = Inl e" for e
    using that by (subst reader.simps) (auto split: prod.splits)
  have closed: "a |\<notin>| users (on_read_error e a w) \<and>
      users (on_read_error e a w) = users w |-| {|a|} \<and>
      \<not> socket_open (sessions (on_read_error e a w) a) \<and>
      timer_waits (sessions (on_read_error e a w) a) = 0 \<and>
      recent_message (on_read_error e a w) = recent_message w \<and>
      (\<forall>b. b \<noteq> a \<longrightarrow> sessions (on_read_error e a w) b = sessions w b)" for e
    by (simp add: on_read_error_def stop_sessions)
  have "reader a fin chunks read_message w = on_read_error not_found a w"
    if "nl \<notin> set (take 1024 ?S)" "1024 \<le> length ?S"
  proof -
    from that(1) have "find_delim (take max_size ?S) = None"
      by (simp only: find_delim_None max_size_def not_False_eq_True)
    with spec that(2) show ?thesis
      by (intro fail) (simp add: max_size_def)
  qed
  moreover have "reader a fin chunks read_message w = on_read_error fin a w"
    if "nl \<notin> set ?S" "length ?S < 1024"
  proof -
    from that have "find_delim (take max_size ?S) = None"
      by (simp add: find_delim_None max_size_def)
    with spec that(2) show ?thesis
      by (intro fail) (simp add: max_size_def)
  qed
  ultimately show ?thesis
    using closed [of not_found] closed [of fin]
    by (simp add: on_read_error_def)
qed

theorem oversized_line_stops_witness:
  "1 |\<in>| users (start 1 (new_world (\<lambda>a. ''bob''))) \<and>
   socket_open (sessions (start 1 (new_world (\<lambda>a. ''bob''))) 1) \<and>
   reader 1 eof [replicate 1024 CHR ''a''] [] (start 1 (new_world (\<lambda>a. ''bob''))) =
     stop 1 (start 1 (new_world (\<lambda>a. ''bob''))
       \<lparr>cerr := [''Async read error: Element not found'']\<rparr>) \<and>
   users (reader 1 eof [replicate 1024 CHR ''a''] [] (start 1 (new_world (\<lambda>a. ''bob'')))) =
     {||} \<and>
   \<not> socket_open (sessions
      (reader 1 eof [replicate 1024 CHR ''a''] [] (start 1 (new_world (\<lambda>a. ''bob'')))) 1) \<and>
   recent_message
      (reader 1 eof [replicate 1024 CHR ''a''] [] (start 1 (new_world (\<lambda>a. ''bob'')))) = [] \<and>
   reader 1 eof [''abc''] [] (start 1 (new_world (\<lambda>a. ''bob''))) =
     stop 1 (start 1 (new_world (\<lambda>a. ''bob''))
       \<lparr>cerr := [''Async read error: End of file'']\<rparr>) \<and>
   users (reader 1 eof [''abc''] [] (start 1 (new_world (\<lambda>a. ''bob'')))) = {||} \<and>
   \<not> socket_open (sessions
      (reader 1 eof [''abc''] [] (start 1 (new_world (\<lambda>a. ''bob'')))) 1)"
proof -
  have empty: "length ([] :: string) \<le> 1024"
    by simp
  have before: "cerr (start 1 (new_world (\<lambda>a. ''bob''))) = []"
    "users (start 1 (new_world (\<lambda>a. ''bob''))) = {|1|}"
    "recent_message (start 1 (new_world (\<lambda>a. ''bob''))) = []"
    "socket_open (sessions (start 1 (new_world (\<lambda>a. ''bob''))) 1)"
    by (simp_all add: start_sessions) (simp_all add: start_def Let_def new_world_def
        new_session_def)
  show ?thesis
    using oversized_line_stops [OF empty, of "[replicate 1024 CHR ''a'']" 1 eof
        "start 1 (new_world (\<lambda>a. ''bob''))"]
      oversized_line_stops [OF empty, of "[''abc'']" 1 eof "start 1 (new_world (\<lambda>a. ''bob''))"]
      before
    by (simp add: stop_sessions)
qed

text \<open>
  Claim C3. The reader forwards \<open>read_message.substr(0, n)\<close>, and \<open>n\<close> counts the
  delimiter: for the input \<open>hi\<close> followed by the delimiter, the room receives the line
  with its delimiter, the other member's queue holds it so, and the writer of that
  member, which adds a delimiter to every entry, sends the line followed by two
  delimiters.
\<close>

theorem reader_keeps_terminator:
  "recent_message (reader 1 eof [''hi'' @ [nl]] [] (start 1 (start 2 (new_world (\<lambda>a. ''bob''))))) =
     [''hi'' @ [nl]] \<and>
   write_message (sessions
      (reader 1 eof [''hi'' @ [nl]] [] (start 1 (start 2 (new_world (\<lambda>a. ''bob''))))) 2) =
     [''Welcome to the chat, bob!'', ''hi'' @ [nl]] \<and>
   map_option (\<lambda>(pc, w). socket_sent (sessions w 2))
     (run 2 (replicate 3 (Ev_resume None))
        (Spawned, reader 1 eof [''hi'' @ [nl]] [] (start 1 (start 2 (new_world (\<lambda>a. ''bob'')))))) =
     Some [''Welcome to the chat, bob!'' @ [nl], ''hi'' @ [nl, nl]]"
  by code_simp

end
